theory Spec2Isabelle
  imports
    Main
    "HOL-Library.Char_ord"
    "HOL-Library.List_Lexorder"
    "HOL-Library.Product_Lexorder"
begin

section \<open>Characters and strings\<close>

text \<open>
  A Python \<open>str\<close> is modelled as a \<^typ>\<open>string\<close>, a list of 8-bit characters read as the
  code points 0 to 255. On these the character predicates and case maps below are those
  of Python (\<open>str.isdigit\<close>, \<open>str.strip\<close>, \<open>str.lower\<close>, \<open>str.upper\<close>, \<open>str.capitalize\<close>,
  \<open>str.title\<close>), with one exception: the upper-case forms of U+00B5 and U+00FF are the
  code points U+039C and U+0178, which are not 8-bit characters, and the model leaves
  these two characters unchanged. Strings are compared as Python compares them:
  lexicographically by code point (\<open>Char_ord\<close>, \<open>List_Lexorder\<close>), tuples
  lexicographically by component (\<open>Product_Lexorder\<close>).
\<close>

definition isdigit :: "char \<Rightarrow> bool" where
  \<comment> \<open>the digits 0 to 9 and the superscript digits U+00B2, U+00B3 and U+00B9\<close>
  "isdigit ch = ((48::nat) \<le> of_char ch \<and> of_char ch \<le> (57::nat)
                 \<or> of_char ch = (178::nat) \<or> of_char ch = (179::nat)
                 \<or> of_char ch = (185::nat))"

definition isspace :: "char \<Rightarrow> bool" where
  \<comment> \<open>tab, line feed, vertical tab, form feed, carriage return, the separators
      0x1c to 0x1f, the space, the next-line control U+0085 and the no-break space U+00A0\<close>
  "isspace ch = ((9::nat) \<le> of_char ch \<and> of_char ch \<le> (13::nat)
                 \<or> (28::nat) \<le> of_char ch \<and> of_char ch \<le> (32::nat)
                 \<or> of_char ch = (133::nat) \<or> of_char ch = (160::nat))"

definition isupper :: "char \<Rightarrow> bool" where
  \<comment> \<open>A to Z, U+00C0 to U+00D6 and U+00D8 to U+00DE\<close>
  "isupper ch = ((65::nat) \<le> of_char ch \<and> of_char ch \<le> (90::nat)
                 \<or> (192::nat) \<le> of_char ch \<and> of_char ch \<le> (214::nat)
                 \<or> (216::nat) \<le> of_char ch \<and> of_char ch \<le> (222::nat))"

definition islower :: "char \<Rightarrow> bool" where
  \<comment> \<open>a to z, U+00AA, U+00B5, U+00BA, U+00DF to U+00F6 and U+00F8 to U+00FF\<close>
  "islower ch = ((97::nat) \<le> of_char ch \<and> of_char ch \<le> (122::nat)
                 \<or> of_char ch = (170::nat) \<or> of_char ch = (181::nat)
                 \<or> of_char ch = (186::nat)
                 \<or> (223::nat) \<le> of_char ch \<and> of_char ch \<le> (246::nat)
                 \<or> (248::nat) \<le> of_char ch \<and> of_char ch \<le> (255::nat))"

definition lower_char :: "char \<Rightarrow> char" where
  "lower_char ch = (if isupper ch then char_of (of_char ch + (32::nat)) else ch)"

definition upper_chars :: "char \<Rightarrow> string" where
  \<comment> \<open>the upper-case form of one character; that of U+00DF is \<open>SS\<close>\<close>
  "upper_chars ch =
     (if of_char ch = (223::nat) then ''SS''
      else if (97::nat) \<le> of_char ch \<and> of_char ch \<le> (122::nat)
              \<or> (224::nat) \<le> of_char ch \<and> of_char ch \<le> (246::nat)
              \<or> (248::nat) \<le> of_char ch \<and> of_char ch \<le> (254::nat)
           then [char_of (of_char ch - (32::nat))]
      else [ch])"

definition title_chars :: "char \<Rightarrow> string" where
  \<comment> \<open>the title-case form of one character; that of U+00DF is \<open>Ss\<close>\<close>
  "title_chars ch = (if of_char ch = (223::nat) then ''Ss'' else upper_chars ch)"

definition lower :: "string \<Rightarrow> string" where
  "lower s = map lower_char s"

definition upper :: "string \<Rightarrow> string" where
  "upper s = concat (map upper_chars s)"

definition capitalize :: "string \<Rightarrow> string" where
  \<comment> \<open>\<open>str.capitalize\<close>: first character title case, the rest lower case\<close>
  "capitalize s = (case s of [] \<Rightarrow> [] | c # cs \<Rightarrow> title_chars c @ lower cs)"

fun title_from :: "bool \<Rightarrow> string \<Rightarrow> string" where
  \<comment> \<open>the loop of \<open>str.title\<close>; the flag says whether the previous character was cased\<close>
  "title_from prev [] = []"
| "title_from prev (c # cs) =
     (if prev then [lower_char c] else title_chars c) @ title_from (isupper c \<or> islower c) cs"

definition title :: "string \<Rightarrow> string" where
  "title s = title_from False s"

definition strip :: "string \<Rightarrow> string" where
  \<comment> \<open>\<open>str.strip()\<close>: white space removed at both ends\<close>
  "strip s = rev (dropWhile isspace (rev (dropWhile isspace s)))"

fun join :: "string \<Rightarrow> string list \<Rightarrow> string" where
  \<comment> \<open>\<open>sep.join(parts)\<close>\<close>
  "join sep [] = []"
| "join sep [p] = p"
| "join sep (p # q # ps) = p @ sep @ join sep (q # ps)"

section \<open>Digit Splitter\<close>

text \<open>
  \<open>re_split_keep_digits\<close> (lines 63 to 71) runs one loop over the characters with three
  variables: the finished fragments \<open>out\<close>, the fragment being built \<open>buf\<close>, and the class
  \<open>last\<close> of the previous character (\<open>None\<close> before the first one; written \<open>lastc\<close>
  here). The state of the loop is the triple of the three; \<open>split_step\<close> is the loop body.
\<close>

type_synonym split_state = "string list \<times> string \<times> bool option"

definition split_step :: "char \<Rightarrow> split_state \<Rightarrow> split_state" where
  "split_step ch st =
     (case st of (out, buf, lastc) \<Rightarrow>
        (let cur = isdigit ch in
         case lastc of
           None \<Rightarrow> (out, [ch], Some cur)
         | Some l \<Rightarrow>
             if cur = l then (out, buf @ [ch], lastc)
             else (out @ [buf], [ch], Some cur)))"

definition re_split_keep_digits :: "string \<Rightarrow> string list" where
  "re_split_keep_digits text =
     (case fold split_step text ([], [], None) of
        (out, buf, lastc) \<Rightarrow> if buf \<noteq> [] then out @ [buf] else out)"

definition all_digits :: "string \<Rightarrow> bool" where
  "all_digits f = list_all isdigit f"

definition no_digits :: "string \<Rightarrow> bool" where
  "no_digits f = list_all (\<lambda>c. \<not> isdigit c) f"

definition same_class :: "string \<Rightarrow> string \<Rightarrow> bool" where
  "same_class f g = (all_digits f \<and> all_digits g \<or> no_digits f \<and> no_digits g)"

text \<open>
  The invariant of the loop after the characters \<open>pre\<close>: the finished fragments and the
  buffer together spell \<open>pre\<close>, every finished fragment is non-empty and of one class,
  neighbours differ in class, and the buffer holds characters of the class \<open>lastc\<close> only,
  which is not the class of the last finished fragment.
\<close>

definition split_inv :: "string \<Rightarrow> split_state \<Rightarrow> bool" where
  "split_inv pre st =
     (case st of (out, buf, lastc) \<Rightarrow>
        concat out @ buf = pre \<and>
        (\<forall>f \<in> set out. f \<noteq> [] \<and> (all_digits f \<or> no_digits f)) \<and>
        successively (\<lambda>f g. \<not> same_class f g) out \<and>
        (case lastc of
           None \<Rightarrow> out = [] \<and> buf = []
         | Some l \<Rightarrow> buf \<noteq> [] \<and> (\<forall>c \<in> set buf. isdigit c = l) \<and>
                     (out \<noteq> [] \<longrightarrow> (\<forall>c \<in> set (last out). isdigit c \<noteq> l))))"

section \<open>Leet Substituter\<close>

definition LEET_MAP :: "string \<Rightarrow> string list option" where
  \<comment> \<open>line 14; keys and alternatives are one-character strings\<close>
  "LEET_MAP = map_of
     [(''a'', [''a'', ''@'', ''4'']),
      (''e'', [''e'', ''3'']),
      (''i'', [''i'', ''1'', ''!'']),
      (''o'', [''o'', ''0'']),
      (''s'', [''s'', ''5'', ''$'']),
      (''t'', [''t'', ''7''])]"

fun itertools_product :: "'a list list \<Rightarrow> 'a list list" where
  \<comment> \<open>\<open>itertools.product(*choices)\<close>: every way to take one element per list, the last
      position varying fastest\<close>
  "itertools_product [] = [[]]"
| "itertools_product (xs # xss) =
     concat (map (\<lambda>x. map ((#) x) (itertools_product xss)) xs)"

definition leet_alts :: "char \<Rightarrow> string list" where
  \<comment> \<open>line 38: \<open>LEET_MAP.get(ch.lower(), [ch])\<close>\<close>
  "leet_alts ch = (case LEET_MAP (lower [ch]) of None \<Rightarrow> [[ch]] | Some alts \<Rightarrow> alts)"

definition leet_choices :: "string \<Rightarrow> string list list" where
  \<comment> \<open>line 38: \<open>[LEET_MAP.get(ch.lower(), [ch]) for ch in word]\<close>\<close>
  "leet_choices word = map leet_alts word"

definition leet_variants :: "string \<Rightarrow> bool \<Rightarrow> string set" where
  "leet_variants word enable =
     (if \<not> enable then {word}
      else set (map (join []) (itertools_product (leet_choices word))))"

definition leet_alternatives :: "char \<Rightarrow> nat" where
  \<comment> \<open>the number of alternatives of a character as the specification lists them:
      3 for a, 2 for e, 3 for i, 2 for o, 3 for s, 2 for t, in either case; 1 otherwise\<close>
  "leet_alternatives ch =
     (if ch \<in> {CHR ''a'', CHR ''A''} then 3
      else if ch \<in> {CHR ''e'', CHR ''E''} then 2
      else if ch \<in> {CHR ''i'', CHR ''I''} then 3
      else if ch \<in> {CHR ''o'', CHR ''O''} then 2
      else if ch \<in> {CHR ''s'', CHR ''S''} then 3
      else if ch \<in> {CHR ''t'', CHR ''T''} then 2
      else 1)"

section \<open>Suffix/Year Appender\<close>

definition COMMON_SUFFIXES :: "string list" where
  \<comment> \<open>line 15, as written: 17 entries, \<open>'!'\<close> at the first and at the sixteenth place\<close>
  "COMMON_SUFFIXES =
     [''!'', ''@'', ''#'', ''1'', ''12'', ''123'', ''1234'', ''2020'', ''2021'', ''2022'',
      ''2023'', ''2024'', ''2025'', ''.'', ''*'', ''!'', ''00'']"

definition SEPARATORS :: "string list" where
  "SEPARATORS = ['''', ''.'', ''-'', ''_'']"

text \<open>
  \<open>append_years\<close> and \<open>add_suffixes\<close> (lines 41 to 53) loop over the words, which the
  pipeline passes as a set, and for each word over the list of years or suffixes; the
  body only adds to the result set, so the result is the union, over the words, of what
  one pass of the outer loop adds.
\<close>

definition append_years :: "string set \<Rightarrow> string list \<Rightarrow> string set" where
  "append_years words years =
     (\<Union>w \<in> words. fold (\<lambda>y out. insert (w @ y) out) years {w})"

definition add_suffixes :: "string set \<Rightarrow> string list \<Rightarrow> string set" where
  "add_suffixes words suffixes =
     (\<Union>w \<in> words. fold (\<lambda>s out. insert (w @ s) out) suffixes {w})"

section \<open>Token Combiner\<close>

fun picks :: "'a list \<Rightarrow> ('a \<times> 'a list) list" where
  \<comment> \<open>every position of a list, in order: the element there and the other elements\<close>
  "picks [] = []"
| "picks (x # xs) = (x, xs) # map (\<lambda>(y, ys). (y, x # ys)) (picks xs)"

fun permutations :: "'a list \<Rightarrow> nat \<Rightarrow> 'a list list" where
  \<comment> \<open>\<open>itertools.permutations(xs, r)\<close>: the arrangements of \<open>r\<close> positions of \<open>xs\<close>, no
      position used twice, in the order of the positions\<close>
  "permutations xs 0 = [[]]"
| "permutations xs (Suc r) =
     concat (map (\<lambda>(y, ys). map ((#) y) (permutations ys r)) (picks xs))"

definition combine_tokens :: "string list \<Rightarrow> int \<Rightarrow> string list \<Rightarrow> string set" where
  \<comment> \<open>lines 55 to 61; \<open>range(1, n + 1)\<close> is \<open>[1..<nat (n + 1)]\<close>, empty when \<open>n < 1\<close>\<close>
  "combine_tokens tokens max_tokens_per_combo separators =
     (let tokens = filter (\<lambda>t. t \<noteq> []) tokens in
      fold (\<lambda>r combos.
              fold (\<lambda>perm combos.
                      fold (\<lambda>sep combos. insert (join sep perm) combos) separators combos)
                   (permutations tokens r) combos)
           [1 ..< nat (min (int (length tokens)) max_tokens_per_combo + 1)] {})"

section \<open>Wordlist Pipeline\<close>

text \<open>
  The sets of \<open>generate_wordlist\<close> (\<open>base\<close>, \<open>expanded\<close>, \<open>combined\<close>, \<open>with_years\<close>,
  \<open>final_set\<close>) are HOL sets, all of them finite. The loop over the raw inputs, a list,
  is a fold of its body; a loop over a set whose body only adds to another set is the
  union of what each pass adds.
\<close>

definition base_step :: "string \<Rightarrow> string set \<Rightarrow> string set" where
  \<comment> \<open>lines 82 to 84, the body of the loop over the raw inputs\<close>
  "base_step item base =
     (if item = [] then base
      else (let item = strip item in
            insert item base \<union> set (filter (\<lambda>p. p \<noteq> []) (re_split_keep_digits item))))"

definition base_tokens :: "string list \<Rightarrow> string set" where
  \<comment> \<open>lines 80 to 84\<close>
  "base_tokens raw_inputs = fold base_step raw_inputs {}"

definition expanded_tokens :: "bool \<Rightarrow> bool \<Rightarrow> string set \<Rightarrow> string set" where
  \<comment> \<open>lines 85 to 88\<close>
  "expanded_tokens include_leet include_case base =
     (\<Union>tok \<in> base.
        \<Union>cv \<in> (if \<not> include_case then {tok}
                 else {tok, lower tok, upper tok, capitalize tok, title tok}).
          leet_variants cv include_leet)"

definition final_candidates ::
  "string list \<Rightarrow> string list \<Rightarrow> bool \<Rightarrow> bool \<Rightarrow> bool \<Rightarrow> string list \<Rightarrow> int \<Rightarrow> string set" where
  \<comment> \<open>lines 80 to 91: the set \<open>final_set\<close>; \<open>sorted(expanded)\<close> is the sorted list of the set\<close>
  "final_candidates raw_inputs years include_leet include_case include_suffixes separators
       max_tokens_per_combo =
     (let base = base_tokens raw_inputs;
          expanded = expanded_tokens include_leet include_case base;
          combined = combine_tokens (sorted_list_of_set expanded) max_tokens_per_combo separators;
          with_years = (if years \<noteq> [] then append_years combined years else combined);
          final_set = (if include_suffixes then add_suffixes with_years COMMON_SUFFIXES
                       else with_years)
      in final_set)"

definition word_key :: "string \<Rightarrow> nat \<times> string" where
  \<comment> \<open>line 92: \<open>lambda x: (len(x), x)\<close>\<close>
  "word_key x = (length x, x)"

definition generate_wordlist ::
  "string list \<Rightarrow> string list \<Rightarrow> bool \<Rightarrow> bool \<Rightarrow> bool \<Rightarrow> string list \<Rightarrow> int \<Rightarrow> int
     \<Rightarrow> string list" where
  \<comment> \<open>lines 78 to 94. \<open>sorted(final_set, key=...)\<close> sorts the elements of the set, taken in
      some order, stably by the key; the key is injective, so the order they are taken
      in does not show in the result\<close>
  "generate_wordlist raw_inputs years include_leet include_case include_suffixes separators
       max_tokens_per_combo max_words =
     (let final_set = final_candidates raw_inputs years include_leet include_case
                        include_suffixes separators max_tokens_per_combo;
          words = sort_key word_key (sorted_list_of_set final_set)
      in if max_words > 0 then take (nat max_words) words else words)"

section \<open>The pipeline with its raising call written out\<close>

text \<open>
  No statement of \<open>generate_wordlist\<close> raises by itself; of the library calls it makes,
  \<open>itertools.permutations(tokens, r)\<close> raises \<open>ValueError\<close> when \<open>r\<close> is negative. The
  definitions below are \<open>combine_tokens\<close>, \<open>generate_wordlist\<close> and the call in \<open>main\<close>
  once more, with that exception as a value: the loop over \<open>range(1, n + 1)\<close>, the list
  \<open>[1..n]\<close> of integers, stops at the first error.
\<close>

datatype error = ValueError

definition itertools_permutations :: "'a list \<Rightarrow> int \<Rightarrow> error + 'a list list" where
  "itertools_permutations xs r =
     (if r < 0 then Inl ValueError else Inr (permutations xs (nat r)))"

fun combine_loop :: "string list \<Rightarrow> string list \<Rightarrow> int list \<Rightarrow> string set \<Rightarrow> error + string set" where
  \<comment> \<open>lines 58 to 60: the loop over \<open>r\<close>\<close>
  "combine_loop tokens separators [] combos = Inr combos"
| "combine_loop tokens separators (r # rs) combos =
     (case itertools_permutations tokens r of
        Inl e \<Rightarrow> Inl e
      | Inr perms \<Rightarrow>
          combine_loop tokens separators rs
            (fold (\<lambda>perm combos.
                     fold (\<lambda>sep combos. insert (join sep perm) combos) separators combos)
                  perms combos))"

definition combine_tokens_result :: "string list \<Rightarrow> int \<Rightarrow> string list \<Rightarrow> error + string set" where
  "combine_tokens_result tokens max_tokens_per_combo separators =
     (let tokens = filter (\<lambda>t. t \<noteq> []) tokens in
      combine_loop tokens separators
        [1 .. min (int (length tokens)) max_tokens_per_combo] {})"

definition generate_wordlist_result ::
  "string list \<Rightarrow> string list \<Rightarrow> bool \<Rightarrow> bool \<Rightarrow> bool \<Rightarrow> string list \<Rightarrow> int \<Rightarrow> int
     \<Rightarrow> error + string list" where
  "generate_wordlist_result raw_inputs years include_leet include_case include_suffixes
       separators max_tokens_per_combo max_words =
     (let base = base_tokens raw_inputs;
          expanded = expanded_tokens include_leet include_case base
      in case combine_tokens_result (sorted_list_of_set expanded) max_tokens_per_combo
                separators of
           Inl e \<Rightarrow> Inl e
         | Inr combined \<Rightarrow>
             (let with_years = (if years \<noteq> [] then append_years combined years else combined);
                  final_set = (if include_suffixes then add_suffixes with_years COMMON_SUFFIXES
                               else with_years);
                  words = sort_key word_key (sorted_list_of_set final_set)
              in Inr (if max_words > 0 then take (nat max_words) words else words)))"

record args =
  args_inputs :: "string list"
  args_years :: "string list"
  args_leet :: bool
  args_case :: bool
  args_suffixes :: bool
  args_seps :: "string list"
  args_max_combo :: int
  args_max_words :: int

definition main_generate :: "args \<Rightarrow> error + string list" where
  \<comment> \<open>lines 159 and 160: the call of the pipeline in \<open>main\<close>, on the options of the
      command line that the generation reads (lines 105 to 112; \<open>args.inputs\<close> is
      \<open>args_inputs\<close>, and so on)\<close>
  "main_generate a =
     generate_wordlist_result (args_inputs a) (args_years a) (args_leet a) (args_case a)
       (args_suffixes a) (args_seps a)
       (max 1 (args_max_combo a)) (max 0 (args_max_words a))"

section \<open>Properties of the Digit Splitter\<close>

lemma split_inv_init: "split_inv [] ([], [], None)"
  by (simp add: split_inv_def)

lemma not_same_class_new:
  assumes "f \<noteq> []" "\<forall>c \<in> set f. isdigit c \<noteq> l" "b \<noteq> []" "\<forall>c \<in> set b. isdigit c = l"
  shows "\<not> same_class f b"
proof -
  obtain x xs where f: "f = x # xs" using assms(1) by (cases f) auto
  obtain y ys where b: "b = y # ys" using assms(3) by (cases b) auto
  from assms(2,4) f b have "isdigit x \<noteq> isdigit y" by auto
  then show ?thesis
    by (auto simp: same_class_def all_digits_def no_digits_def f b)
qed

lemma homogeneous_buf:
  "\<forall>c \<in> set b. isdigit c = l \<Longrightarrow> all_digits b \<or> no_digits b"
  by (cases l) (auto simp: all_digits_def no_digits_def list_all_iff)

lemma split_inv_step:
  assumes "split_inv pre st"
  shows "split_inv (pre @ [ch]) (split_step ch st)"
proof -
  obtain out buf lastc where st: "st = (out, buf, lastc)" by (cases st) auto
  show ?thesis
  proof (cases lastc)
    case None
    with assms st show ?thesis
      by (auto simp: split_inv_def split_step_def)
  next
    case (Some l)
    note inv = assms[unfolded st split_inv_def Some, simplified]
    show ?thesis
    proof (cases "isdigit ch = l")
      case True
      with inv show ?thesis
        by (auto simp: split_inv_def split_step_def st Some)
    next
      case False
      have hb: "all_digits buf \<or> no_digits buf" using inv homogeneous_buf by blast
      have ns: "out \<noteq> [] \<Longrightarrow> \<not> same_class (last out) buf"
      proof -
        assume ne: "out \<noteq> []"
        then have "last out \<in> set out" by simp
        with inv have "last out \<noteq> []" by blast
        moreover from inv ne have "\<forall>c \<in> set (last out). isdigit c \<noteq> l" by blast
        ultimately show ?thesis using inv not_same_class_new by blast
      qed
      from inv False hb ns show ?thesis
        by (auto simp: split_inv_def split_step_def st Some successively_append_iff)
    qed
  qed
qed

lemma split_inv_fold:
  "split_inv pre st \<Longrightarrow> split_inv (pre @ s) (fold split_step s st)"
proof (induction s arbitrary: pre st)
  case Nil
  then show ?case by simp
next
  case (Cons ch s)
  from Cons.IH[OF split_inv_step[OF Cons.prems, of ch]] show ?case by simp
qed

lemma re_split_props:
  "concat (re_split_keep_digits s) = s \<and>
   (\<forall>f \<in> set (re_split_keep_digits s). f \<noteq> [] \<and> (all_digits f \<or> no_digits f)) \<and>
   successively (\<lambda>f g. \<not> same_class f g) (re_split_keep_digits s)"
proof -
  obtain out buf lastc where r: "fold split_step s ([], [], None) = (out, buf, lastc)"
    by (cases "fold split_step s ([], [], None)") auto
  from split_inv_fold[OF split_inv_init, of s] r
  have inv: "split_inv s (out, buf, lastc)" by simp
  show ?thesis
  proof (cases lastc)
    case None
    with inv show ?thesis
      by (auto simp: split_inv_def re_split_keep_digits_def r)
  next
    case (Some l)
    note i = inv[unfolded split_inv_def Some, simplified]
    have hb: "all_digits buf \<or> no_digits buf" using i homogeneous_buf by blast
    have ns: "out \<noteq> [] \<Longrightarrow> \<not> same_class (last out) buf"
    proof -
      assume ne: "out \<noteq> []"
      then have "last out \<in> set out" by simp
      with i have "last out \<noteq> []" by blast
      moreover from i ne have "\<forall>c \<in> set (last out). isdigit c \<noteq> l" by blast
      ultimately show ?thesis using i not_same_class_new by blast
    qed
    from i hb ns show ?thesis
      by (auto simp: re_split_keep_digits_def r successively_append_iff)
  qed
qed

text \<open>
  C5. For every input string the Digit Splitter returns non-empty fragments whose
  concatenation, in order, is the input; every fragment consists of digits only or of
  non-digits only; no two neighbouring fragments have the same class; and the empty
  string gives the empty sequence. A digit is what \<open>str.isdigit\<close> takes for one, the
  superscript digits included: \<open>a\<close>, U+00B2, \<open>1\<close> splits after the \<open>a\<close>.
\<close>

theorem digit_splitter_fragments:
  "concat (re_split_keep_digits s) = s \<and>
   (\<forall>f \<in> set (re_split_keep_digits s). f \<noteq> [] \<and> (all_digits f \<or> no_digits f)) \<and>
   (\<forall>i. Suc i < length (re_split_keep_digits s) \<longrightarrow>
        \<not> same_class (re_split_keep_digits s ! i) (re_split_keep_digits s ! Suc i)) \<and>
   re_split_keep_digits [] = []"
proof -
  have e: "re_split_keep_digits [] = []" by (simp add: re_split_keep_digits_def)
  from re_split_props[of s] e show ?thesis
    by (simp add: successively_conv_nth)
qed

theorem digit_splitter_fragments_witness:
  "concat [''abc'', ''123'', ''de''] = ''abc123de'' \<and>
   re_split_keep_digits ''abc123de'' = [''abc'', ''123'', ''de''] \<and>
   list_all (\<lambda>f. f \<noteq> [] \<and> (all_digits f \<or> no_digits f)) (re_split_keep_digits ''abc123de'') \<and>
   \<not> same_class (re_split_keep_digits ''abc123de'' ! 0) (re_split_keep_digits ''abc123de'' ! Suc 0) \<and>
   \<not> same_class (re_split_keep_digits ''abc123de'' ! 1) (re_split_keep_digits ''abc123de'' ! Suc 1) \<and>
   re_split_keep_digits [CHR ''a'', CHR 0xB2, CHR ''1''] = [[CHR ''a''], [CHR 0xB2, CHR ''1'']] \<and>
   all_digits [CHR 0xB2, CHR ''1'']"
proof -
  have v: "re_split_keep_digits ''abc123de'' = [''abc'', ''123'', ''de'']"
    by (simp add: re_split_keep_digits_def split_step_def isdigit_def)
  have u: "re_split_keep_digits [CHR ''a'', CHR 0xB2, CHR ''1''] = [[CHR ''a''], [CHR 0xB2, CHR ''1'']]"
    by (simp add: re_split_keep_digits_def split_step_def isdigit_def)
  from digit_splitter_fragments[of "''abc123de''"] v u show ?thesis
    by (simp add: same_class_def all_digits_def no_digits_def isdigit_def)
qed

section \<open>Properties of the Leet Substituter\<close>

lemma itertools_product_eq: "itertools_product xss = product_lists xss"
  by (induction xss) simp_all

lemma join_empty: "join [] ps = concat ps"
  by (induction "[]::string" ps rule: join.induct) simp_all

lemma lower_char_eq_iff:
  "lower_char ch = k \<longleftrightarrow>
     (ch = k \<and> \<not> isupper k) \<or> (isupper ch \<and> of_char k = of_char ch + (32::nat))"
proof (cases "isupper ch")
  case True
  then have b: "of_char ch + (32::nat) < 256"
    by (auto simp: isupper_def)
  have "char_of (of_char ch + (32::nat)) = k \<longleftrightarrow> of_char k = of_char ch + (32::nat)"
    using b by (metis of_char_of char_of_char mod_less)
  moreover have "ch = k \<Longrightarrow> isupper k" using True by simp
  ultimately show ?thesis using True by (auto simp: lower_char_def)
next
  case False
  then show ?thesis by (auto simp: lower_char_def)
qed

lemma of_char_plus32:
  "(of_char k = of_char ch + (32::nat)) \<longleftrightarrow> ((32::nat) \<le> of_char k \<and> ch = char_of (of_char k - (32::nat)))"
proof
  assume a: "of_char k = of_char ch + (32::nat)"
  then have "of_char k - (32::nat) = of_char ch" by simp
  then have "char_of (of_char k - (32::nat)) = ch" by (simp only: char_of_char)
  with a show "(32::nat) \<le> of_char k \<and> ch = char_of (of_char k - (32::nat))" by simp
next
  assume b: "(32::nat) \<le> of_char k \<and> ch = char_of (of_char k - (32::nat))"
  have "of_char k - (32::nat) < 256"
    using of_char_mod_256[of k, where ?'a = nat] by (metis less_imp_diff_less mod_less_divisor zero_less_numeral)
  then have "of_char (char_of (of_char k - (32::nat))) = of_char k - (32::nat)"
    by (simp add: of_char_of)
  with b show "of_char k = of_char ch + (32::nat)" by simp
qed

lemma lower_single_iff:
  "lower [ch] = [k] \<longleftrightarrow>
     (ch = k \<and> \<not> isupper k) \<or>
     (isupper ch \<and> (32::nat) \<le> of_char k \<and> ch = char_of (of_char k - (32::nat)))"
  using lower_char_eq_iff[of ch k] of_char_plus32[of k ch] by (simp add: lower_def)

lemma char_of_upper_keys:
  "char_of (65::nat) = CHR ''A''" "char_of (69::nat) = CHR ''E''" "char_of (73::nat) = CHR ''I''"
  "char_of (79::nat) = CHR ''O''" "char_of (83::nat) = CHR ''S''" "char_of (84::nat) = CHR ''T''"
  by code_simp+

lemma lower_key_cases:
  "lower [ch] = ''a'' \<longleftrightarrow> ch \<in> {CHR ''a'', CHR ''A''}"
  "lower [ch] = ''e'' \<longleftrightarrow> ch \<in> {CHR ''e'', CHR ''E''}"
  "lower [ch] = ''i'' \<longleftrightarrow> ch \<in> {CHR ''i'', CHR ''I''}"
  "lower [ch] = ''o'' \<longleftrightarrow> ch \<in> {CHR ''o'', CHR ''O''}"
  "lower [ch] = ''s'' \<longleftrightarrow> ch \<in> {CHR ''s'', CHR ''S''}"
  "lower [ch] = ''t'' \<longleftrightarrow> ch \<in> {CHR ''t'', CHR ''T''}"
  by (auto simp: lower_single_iff isupper_def char_of_upper_keys)


lemma LEET_MAP_cases:
  "LEET_MAP k =
     (if k = ''a'' then Some [''a'', ''@'', ''4'']
      else if k = ''e'' then Some [''e'', ''3'']
      else if k = ''i'' then Some [''i'', ''1'', ''!'']
      else if k = ''o'' then Some [''o'', ''0'']
      else if k = ''s'' then Some [''s'', ''5'', ''$'']
      else if k = ''t'' then Some [''t'', ''7'']
      else None)"
  by (simp only: LEET_MAP_def map_of.simps fst_conv snd_conv fun_upd_apply)

lemma leet_alts_cases:
  "leet_alts ch =
     (if ch \<in> {CHR ''a'', CHR ''A''} then [''a'', ''@'', ''4'']
      else if ch \<in> {CHR ''e'', CHR ''E''} then [''e'', ''3'']
      else if ch \<in> {CHR ''i'', CHR ''I''} then [''i'', ''1'', ''!'']
      else if ch \<in> {CHR ''o'', CHR ''O''} then [''o'', ''0'']
      else if ch \<in> {CHR ''s'', CHR ''S''} then [''s'', ''5'', ''$'']
      else if ch \<in> {CHR ''t'', CHR ''T''} then [''t'', ''7'']
      else [[ch]])"
  by (simp only: leet_alts_def LEET_MAP_cases lower_key_cases option.case if_distrib[of "case_option _ _"] cong: if_cong)

lemma leet_alts_length: "length (leet_alts ch) = leet_alternatives ch"
  unfolding leet_alts_cases leet_alternatives_def by (simp only: if_distrib[of length] list.size cong: if_cong) simp

lemma leet_alts_distinct: "distinct (leet_alts ch)"
  unfolding leet_alts_cases by (simp only: if_distrib[of distinct] cong: if_cong) simp

lemma leet_alts_all_single: "list_all (\<lambda>x. length x = 1) (leet_alts ch)"
  unfolding leet_alts_cases by simp

lemma leet_alts_single: "x \<in> set (leet_alts ch) \<Longrightarrow> length x = 1"
  using leet_alts_all_single[of ch] by (simp add: list_all_iff)

lemma leet_alts_upper:
  "ch \<in> {CHR ''A'', CHR ''E'', CHR ''I'', CHR ''O'', CHR ''S'', CHR ''T''} \<Longrightarrow> [ch] \<notin> set (leet_alts ch)"
  unfolding leet_alts_cases by auto

lemma singles_concat:
  "\<forall>x \<in> set p. length x = 1 \<Longrightarrow> map (\<lambda>c. [c]) (concat p) = p"
proof (induction p)
  case Nil
  then show ?case by simp
next
  case (Cons x p)
  then obtain c where "x = [c]" by (cases x) auto
  with Cons show ?case by simp
qed

lemma in_product_leet_choices:
  "p \<in> set (itertools_product (leet_choices w)) \<longleftrightarrow> list_all2 (\<lambda>x ch. x \<in> set (leet_alts ch)) p w"
  by (simp add: itertools_product_eq product_lists_set leet_choices_def list_all2_map2)

lemma product_leet_singles:
  assumes "p \<in> set (itertools_product (leet_choices w))"
  shows "\<forall>x \<in> set p. length x = 1"
proof -
  from assms have "list_all2 (\<lambda>x ch. x \<in> set (leet_alts ch)) p w"
    by (simp add: in_product_leet_choices)
  then show ?thesis
    by (induction rule: list_all2_induct) (auto dest: leet_alts_single)
qed

lemma concat_inj_on_product:
  "inj_on concat (set (itertools_product (leet_choices w)))"
proof (rule inj_onI)
  fix p q
  assume p: "p \<in> set (itertools_product (leet_choices w))"
     and q: "q \<in> set (itertools_product (leet_choices w))"
     and e: "concat p = concat q"
  have "p = map (\<lambda>c. [c]) (concat p)"
    by (rule singles_concat[OF product_leet_singles[OF p], symmetric])
  also have "\<dots> = map (\<lambda>c. [c]) (concat q)"
    by (simp only: e)
  also have "\<dots> = q"
    by (rule singles_concat[OF product_leet_singles[OF q]])
  finally show "p = q" .
qed

lemma distinct_product_leet: "distinct (itertools_product (leet_choices w))"
  by (simp add: itertools_product_eq distinct_product_lists leet_choices_def leet_alts_distinct)

lemma length_product_leet:
  "length (itertools_product (leet_choices w)) = prod_list (map leet_alternatives w)"
proof -
  have "length (itertools_product (leet_choices w)) = foldr (*) (map length (map leet_alts w)) 1"
    by (simp only: itertools_product_eq leet_choices_def length_product_lists)
  also have "\<dots> = prod_list (map leet_alternatives w)"
    by (induction w) (simp_all add: leet_alts_length)
  finally show ?thesis .
qed

lemma card_leet_variants:
  "card (leet_variants w True) = prod_list (map leet_alternatives w)"
proof -
  have "leet_variants w True = concat ` set (itertools_product (leet_choices w))"
    by (simp add: leet_variants_def join_empty[abs_def])
  then have "card (leet_variants w True) = card (set (itertools_product (leet_choices w)))"
    by (simp add: card_image concat_inj_on_product)
  also have "\<dots> = length (itertools_product (leet_choices w))"
    by (simp add: distinct_card distinct_product_leet)
  finally show ?thesis by (simp add: length_product_leet)
qed

text \<open>
  C4. With the flag off, leet substitution returns the token alone. With the flag on, the
  number of variants is the product, over the characters of the token, of the number of
  alternatives of each (3 for a, 2 for e, 3 for i, 2 for o, 3 for s, 2 for t, in either
  case, 1 for any other character); so \<open>it\<close> has 6 variants.
\<close>

theorem leet_variants_count:
  "leet_variants w False = {w} \<and>
   card (leet_variants w True) = prod_list (map leet_alternatives w) \<and>
   card (leet_variants ''it'' True) = 6"
proof -
  have "leet_variants w False = {w}"
    by (simp add: leet_variants_def)
  moreover have "prod_list (map leet_alternatives ''it'') = 6"
    by (simp add: leet_alternatives_def)
  ultimately show ?thesis
    by (simp only: card_leet_variants simp_thms)
qed

lemma leet_alts_I: "leet_alts CHR ''I'' = [''i'', ''1'', ''!'']"
  unfolding leet_alts_cases by simp

lemma leet_alts_T: "leet_alts CHR ''T'' = [''t'', ''7'']"
  unfolding leet_alts_cases by simp

lemma leet_variants_IT: "leet_variants ''IT'' True = {''it'', ''i7'', ''1t'', ''17'', ''!t'', ''!7''}"
  by (simp add: leet_variants_def leet_choices_def leet_alts_I leet_alts_T)

lemma in_leet_variants_self:
  assumes "w \<in> leet_variants w True"
  shows "\<forall>ch \<in> set w. [ch] \<in> set (leet_alts ch)"
proof -
  from assms obtain p where p: "p \<in> set (itertools_product (leet_choices w))" and e: "w = concat p"
    by (auto simp: leet_variants_def join_empty)
  have "p = map (\<lambda>c. [c]) (concat p)"
    by (rule singles_concat[OF product_leet_singles[OF p], symmetric])
  then have "p = map (\<lambda>c. [c]) w"
    by (simp only: e[symmetric])
  with p have "list_all2 (\<lambda>x ch. x \<in> set (leet_alts ch)) (map (\<lambda>c. [c]) w) w"
    by (simp add: in_product_leet_choices)
  then show ?thesis
    by (simp add: list_all2_map1 list_all2_same)
qed

text \<open>
  C9. A token with an upper-case A, E, I, O, S or T is not among its own leet variants
  when substitution is on: the alternatives of such a letter are the lower-case letter
  and its substitutes. The variants of \<open>IT\<close> are \<open>it\<close>, \<open>i7\<close>, \<open>1t\<close>, \<open>17\<close>, \<open>!t\<close>
  and \<open>!7\<close>.
\<close>

theorem leet_variants_drops_upper:
  assumes "ch \<in> set w"
      and "ch \<in> {CHR ''A'', CHR ''E'', CHR ''I'', CHR ''O'', CHR ''S'', CHR ''T''}"
  shows "w \<notin> leet_variants w True \<and>
         leet_variants ''IT'' True = {''it'', ''i7'', ''1t'', ''17'', ''!t'', ''!7''}"
  using assms in_leet_variants_self[of w] leet_alts_upper[of ch] leet_variants_IT by blast

theorem leet_variants_drops_upper_witness:
  "CHR ''I'' \<in> set ''IT'' \<and> ''IT'' \<notin> leet_variants ''IT'' True"
  using leet_variants_drops_upper[of "CHR ''I''" "''IT''"] by simp

section \<open>Properties of the Suffix/Year Appender\<close>

lemma fold_insert_append:
  "fold (\<lambda>y out. insert (w @ y) out) ys S = S \<union> (\<lambda>y. w @ y) ` set ys"
  by (induction ys arbitrary: S) auto

lemma append_years_eq:
  "append_years W ys = W \<union> (\<lambda>(w, y). w @ y) ` (W \<times> set ys)"
  by (auto simp: append_years_def fold_insert_append)

lemma add_suffixes_eq_append_years: "add_suffixes W ss = append_years W ss"
  by (simp add: add_suffixes_def append_years_def)

lemma append_years_image:
  "append_years W ys = (\<lambda>(w, y). w @ y) ` (W \<times> insert [] (set ys))"
  by (auto simp: append_years_eq image_iff)

lemma finite_append_years: "finite W \<Longrightarrow> finite (append_years W ys)"
  by (simp add: append_years_image)

lemma card_append_years_le:
  assumes "finite W"
  shows "card (append_years W ys) \<le> card W * (1 + card (set ys))"
proof -
  have "card (append_years W ys) \<le> card (W \<times> insert [] (set ys))"
    unfolding append_years_image using assms by (intro card_image_le) simp
  also have "\<dots> = card W * card (insert [] (set ys))"
    by (simp add: card_cartesian_product)
  also have "\<dots> \<le> card W * (1 + card (set ys))"
    by (intro mult_le_mono2) (simp add: card_insert_if)
  finally show ?thesis .
qed

lemma card_append_years_eq:
  assumes "[] \<notin> set ys" and "inj_on (\<lambda>(w, y). w @ y) (W \<times> insert [] (set ys))"
  shows "card (append_years W ys) = card W * (1 + card (set ys))"
proof -
  have "card (append_years W ys) = card (W \<times> insert [] (set ys))"
    unfolding append_years_image using assms(2) by (rule card_image)
  also have "\<dots> = card W * card (insert [] (set ys))"
    by (simp add: card_cartesian_product)
  also have "\<dots> = card W * (1 + card (set ys))"
    using assms(1) by simp
  finally show ?thesis .
qed

text \<open>
  C8. The year appender and the suffix appender keep every word they are given: the
  output is a superset of the input set, for every list of years and for the built-in
  suffix list.
\<close>

theorem appender_keeps_words:
  "W \<subseteq> append_years W ys \<and> W \<subseteq> add_suffixes W COMMON_SUFFIXES"
  by (simp add: add_suffixes_eq_append_years append_years_eq)

text \<open>
  The number of words after appending is not always the number of words times one more
  than the number of suffixes. The built-in list names \<open>!\<close> twice, so one word gets 16 new
  words, not 17; and the words \<open>a\<close> and \<open>a1\<close> with the years \<open>1\<close> and \<open>11\<close> give
  \<open>a1\<close> and \<open>a11\<close> twice each, 4 words in all, not 6.
\<close>

theorem appender_size_counterexample:
  "card (add_suffixes {''x''} COMMON_SUFFIXES) \<noteq> card {''x''} * (1 + length COMMON_SUFFIXES) \<and>
   card (append_years {''a'', ''a1''} [''1'', ''11'']) \<noteq> card {''a'', ''a1''} * (1 + length [''1'', ''11''])"
  by (simp add: add_suffixes_def append_years_def COMMON_SUFFIXES_def card_insert_if)


lemma card_append_years_ge:
  assumes "finite W"
  shows "card W \<le> card (append_years W ys)"
  using assms by (intro card_mono finite_append_years) (simp_all add: append_years_eq)

text \<open>
  C3, as the code has it. For a finite set of words the appenders return at least as many
  words as they are given and at most the number of words times one more than the number
  of distinct years or suffixes. The count is the number of words times one more than
  the number of years when the years are pairwise distinct and non-empty and no two
  different pairs of a word and a year (or no year) spell the same string.
\<close>

theorem appender_size:
  assumes "finite W"
  shows "card W \<le> card (append_years W ys) \<and>
         card (append_years W ys) \<le> card W * (1 + card (set ys)) \<and>
         card W \<le> card (add_suffixes W COMMON_SUFFIXES) \<and>
         card (add_suffixes W COMMON_SUFFIXES) \<le> card W * (1 + card (set COMMON_SUFFIXES)) \<and>
         (distinct ys \<and> [] \<notin> set ys \<and> inj_on (\<lambda>(w, y). w @ y) (W \<times> insert [] (set ys)) \<longrightarrow>
            card (append_years W ys) = card W * (1 + length ys))"
proof -
  have "distinct ys \<and> [] \<notin> set ys \<and> inj_on (\<lambda>(w, y). w @ y) (W \<times> insert [] (set ys)) \<longrightarrow>
            card (append_years W ys) = card W * (1 + length ys)"
    using card_append_years_eq[of ys W] by (auto simp: distinct_card)
  then show ?thesis
    using card_append_years_ge[OF assms] card_append_years_le[OF assms]
    by (simp only: add_suffixes_eq_append_years)
qed

theorem appender_size_witness:
  "finite {''a'', ''b''} \<and> distinct [''1'', ''2''] \<and> [] \<notin> set [''1'', ''2''] \<and>
   inj_on (\<lambda>(w, y). w @ y) ({''a'', ''b''} \<times> insert [] (set [''1'', ''2''])) \<and>
   card (append_years {''a'', ''b''} [''1'', ''2'']) = card {''a'', ''b''} * (1 + length [''1'', ''2''])"
proof -
  have i: "inj_on (\<lambda>(w, y). w @ y) ({''a'', ''b''} \<times> insert [] (set [''1'', ''2'']))"
    by (auto simp: inj_on_def)
  have d: "distinct [''1'', ''2''] \<and> [] \<notin> set [''1'', ''2'']" by simp
  have f: "finite {''a'', ''b''}" by simp
  from appender_size[OF f, of "[''1'', ''2'']"] i d
  have "card (append_years {''a'', ''b''} [''1'', ''2'']) = card {''a'', ''b''} * (1 + length [''1'', ''2''])"
    by blast
  with i d f show ?thesis by blast
qed

section \<open>Properties of the Token Combiner\<close>

lemma fold_union_gen:
  assumes "\<And>x S. F x S = S \<union> g x"
  shows "fold F xs S = S \<union> (\<Union>x \<in> set xs. g x)"
  by (induction xs arbitrary: S) (auto simp: assms)

lemma fold_insert_join:
  "fold (\<lambda>sep combos. insert (join sep perm) combos) sps S = S \<union> (\<lambda>sep. join sep perm) ` set sps"
  by (induction sps arbitrary: S) auto

lemma combine_tokens_eq:
  "combine_tokens tokens k sps =
     (\<Union>r \<in> {1 ..< nat (min (int (length (filter (\<lambda>t. t \<noteq> []) tokens))) k + 1)}.
        \<Union>p \<in> set (permutations (filter (\<lambda>t. t \<noteq> []) tokens) r).
          (\<lambda>sep. join sep p) ` set sps)"
proof -
  have inner: "\<And>r S. fold (\<lambda>perm combos.
                      fold (\<lambda>sep combos. insert (join sep perm) combos) sps combos)
                   (permutations (filter (\<lambda>t. t \<noteq> []) tokens) r) S
        = S \<union> (\<Union>p \<in> set (permutations (filter (\<lambda>t. t \<noteq> []) tokens) r). (\<lambda>sep. join sep p) ` set sps)"
    by (rule fold_union_gen) (rule fold_insert_join)
  show ?thesis
    unfolding combine_tokens_def Let_def
    by (subst fold_union_gen[where g = "\<lambda>r. \<Union>p \<in> set (permutations (filter (\<lambda>t. t \<noteq> []) tokens) r). (\<lambda>sep. join sep p) ` set sps"])
       (simp_all add: inner)
qed

lemma picks_Cons_cases:
  assumes "(y, ys) \<in> set (picks (x # xs))"
  obtains "y = x" "ys = xs"
        | zs where "(y, zs) \<in> set (picks xs)" "ys = x # zs"
  using assms by auto

lemma picks_sound:
  "(y, ys) \<in> set (picks xs) \<Longrightarrow> y \<in> set xs \<and> set ys \<subseteq> set xs \<and> length xs = Suc (length ys)"
proof (induction xs arbitrary: y ys)
  case Nil
  then show ?case by simp
next
  case (Cons x xs)
  from Cons.prems show ?case
  proof (cases rule: picks_Cons_cases)
    case 1
    then show ?thesis by auto
  next
    case (2 zs)
    from Cons.IH[OF 2(1)] 2(2) show ?thesis by auto
  qed
qed

lemma picks_distinct:
  "distinct xs \<Longrightarrow> (y, ys) \<in> set (picks xs) \<Longrightarrow> set ys = set xs - {y} \<and> distinct ys"
proof (induction xs arbitrary: y ys)
  case Nil
  then show ?case by simp
next
  case (Cons x xs)
  from Cons.prems(2) show ?case
  proof (cases rule: picks_Cons_cases)
    case 1
    with Cons.prems(1) show ?thesis by auto
  next
    case (2 zs)
    from Cons.prems(1) have d: "distinct xs" and nx: "x \<notin> set xs" by auto
    from Cons.IH[OF d 2(1)] picks_sound[OF 2(1)] nx 2(2) show ?thesis by auto
  qed
qed

lemma picks_complete:
  "y \<in> set xs \<Longrightarrow> \<exists>ys. (y, ys) \<in> set (picks xs)"
  by (induction xs) force+

lemma permutations_sound:
  "p \<in> set (permutations xs r) \<Longrightarrow> length p = r \<and> set p \<subseteq> set xs"
proof (induction r arbitrary: xs p)
  case 0
  then show ?case by simp
next
  case (Suc r)
  then obtain y ys q where pk: "(y, ys) \<in> set (picks xs)" and q: "q \<in> set (permutations ys r)"
    and p: "p = y # q" by auto
  from Suc.IH[OF q] picks_sound[OF pk] p show ?case by auto
qed

lemma permutations_distinct_set:
  "distinct xs \<Longrightarrow> set (permutations xs r) = {p. length p = r \<and> distinct p \<and> set p \<subseteq> set xs}"
proof (induction r arbitrary: xs)
  case 0
  then show ?case by auto
next
  case (Suc r)
  show ?case
  proof (intro set_eqI iffI)
    fix p assume "p \<in> set (permutations xs (Suc r))"
    then obtain y ys q where pk: "(y, ys) \<in> set (picks xs)" and q: "q \<in> set (permutations ys r)"
      and p: "p = y # q" by auto
    from picks_distinct[OF Suc.prems pk] have ys: "set ys = set xs - {y}" "distinct ys" by auto
    from q Suc.IH[OF ys(2)] have "length q = r" "distinct q" "set q \<subseteq> set ys" by auto
    with ys picks_sound[OF pk] p
    show "p \<in> {p. length p = Suc r \<and> distinct p \<and> set p \<subseteq> set xs}" by auto
  next
    fix p assume "p \<in> {p. length p = Suc r \<and> distinct p \<and> set p \<subseteq> set xs}"
    then obtain y q where p: "p = y # q" and l: "length q = r" and d: "distinct q" "y \<notin> set q"
      and s: "y \<in> set xs" "set q \<subseteq> set xs" by (cases p) auto
    from picks_complete[OF s(1)] obtain ys where pk: "(y, ys) \<in> set (picks xs)" by blast
    from picks_distinct[OF Suc.prems pk] have ys: "set ys = set xs - {y}" "distinct ys" by auto
    from s d ys have "set q \<subseteq> set ys" by auto
    with l d Suc.IH[OF ys(2)] have "q \<in> set (permutations ys r)" by auto
    with pk p show "p \<in> set (permutations xs (Suc r))" by force
  qed
qed


lemma filter_nonempty_id: "[] \<notin> set tokens \<Longrightarrow> filter (\<lambda>t. t \<noteq> []) tokens = tokens"
  by (induction tokens) auto

lemma combine_tokens_ab:
  "combine_tokens [''a'', ''b''] 2 ['''', ''-''] = {''a'', ''b'', ''a-b'', ''b-a'', ''ab'', ''ba''}"
proof -
  have r: "[Suc 0 ..< 3] = [Suc 0, 2]"
    by (simp add: upt_rec)
  have p1: "permutations [''a'', ''b''] (Suc 0) = [[''a''], [''b'']]"
    by simp
  have p2: "permutations [''a'', ''b''] 2 = [[''a'', ''b''], [''b'', ''a'']]"
    by (simp add: numeral_2_eq_2)
  show ?thesis
    unfolding combine_tokens_def Let_def
    by (simp add: r p1 p2) auto
qed

lemma combo_range_set:
  "{1 ..< nat (min (int n) k + 1)} = {r. 1 \<le> r \<and> int r \<le> min (int n) k}"
  by auto

lemma combine_tokens_distinct:
  assumes "distinct tokens" "[] \<notin> set tokens"
  shows "combine_tokens tokens k sps =
     {join sep p | sep p. sep \<in> set sps \<and> distinct p \<and> set p \<subseteq> set tokens \<and>
                          1 \<le> length p \<and> int (length p) \<le> min (int (length tokens)) k}"
proof -
  have "combine_tokens tokens k sps =
     (\<Union>r \<in> {1 ..< nat (min (int (length tokens)) k + 1)}.
        \<Union>p \<in> {p. length p = r \<and> distinct p \<and> set p \<subseteq> set tokens}.
          (\<lambda>sep. join sep p) ` set sps)"
    by (simp only: combine_tokens_eq filter_nonempty_id[OF assms(2)]
          permutations_distinct_set[OF assms(1)])
  also have "\<dots> =
     (\<Union>r \<in> {r. 1 \<le> r \<and> int r \<le> min (int (length tokens)) k}.
        \<Union>p \<in> {p. length p = r \<and> distinct p \<and> set p \<subseteq> set tokens}.
          (\<lambda>sep. join sep p) ` set sps)"
    by (simp only: combo_range_set)
  also have "\<dots> = {join sep p | sep p. sep \<in> set sps \<and> distinct p \<and> set p \<subseteq> set tokens \<and>
                          1 \<le> length p \<and> int (length p) \<le> min (int (length tokens)) k}"
    by blast
  finally show ?thesis .
qed

text \<open>
  C1. For distinct non-empty tokens, a bound \<open>k\<close> of at least 1 and any list of separators,
  the Token Combiner returns exactly the strings \<open>sep.join(p)\<close> where \<open>sep\<close> is one of the
  separators and \<open>p\<close> is an arrangement of the tokens, without repetition, of a length
  from 1 to the smaller of the number of tokens and \<open>k\<close>. For the tokens \<open>a\<close> and \<open>b\<close>,
  \<open>k = 2\<close> and the separators \<open>''\<close> and \<open>-\<close> the result is the set of \<open>a\<close>, \<open>b\<close>, \<open>a-b\<close>,
  \<open>b-a\<close>, \<open>ab\<close> and \<open>ba\<close>.
\<close>

theorem token_combiner_arrangements:
  assumes "distinct tokens" and "[] \<notin> set tokens" and "1 \<le> k"
  shows "combine_tokens tokens k sps =
           {join sep p | sep p. sep \<in> set sps \<and> distinct p \<and> set p \<subseteq> set tokens \<and>
                                1 \<le> length p \<and> int (length p) \<le> min (int (length tokens)) k} \<and>
         combine_tokens [''a'', ''b''] 2 ['''', ''-''] = {''a'', ''b'', ''a-b'', ''b-a'', ''ab'', ''ba''}"
  using combine_tokens_distinct[OF assms(1,2)] combine_tokens_ab by blast

theorem token_combiner_arrangements_witness:
  "distinct [''a'', ''b''] \<and> [] \<notin> set [''a'', ''b''] \<and> (1::int) \<le> 2 \<and>
   combine_tokens [''a'', ''b''] 2 ['''', ''-''] = {''a'', ''b'', ''a-b'', ''b-a'', ''ab'', ''ba''} \<and>
   combine_tokens [''a'', ''b''] 2 ['''', ''-''] =
     {join sep p | sep p. sep \<in> set ['''', ''-''] \<and> distinct p \<and> set p \<subseteq> set [''a'', ''b''] \<and>
                          1 \<le> length p \<and> int (length p) \<le> min (int (length [''a'', ''b''])) 2}"
proof -
  have h: "distinct [''a'', ''b'']" "[] \<notin> set [''a'', ''b'']" "(1::int) \<le> 2" by simp_all
  from token_combiner_arrangements[OF h, of "['''', ''-'']"] h show ?thesis by blast
qed

section \<open>Properties of the Wordlist Pipeline\<close>

lemma finite_base_step: "finite base \<Longrightarrow> finite (base_step item base)"
  by (simp add: base_step_def Let_def)

lemma finite_fold_base_step: "finite base \<Longrightarrow> finite (fold base_step raw base)"
  by (induction raw arbitrary: base) (simp_all add: finite_base_step)

lemma finite_base_tokens: "finite (base_tokens raw)"
  by (simp add: base_tokens_def finite_fold_base_step)

lemma finite_leet_variants: "finite (leet_variants w b)"
  by (simp add: leet_variants_def)

lemma finite_expanded_tokens: "finite base \<Longrightarrow> finite (expanded_tokens l c base)"
  by (simp add: expanded_tokens_def finite_leet_variants)

lemma finite_combine_tokens: "finite (combine_tokens tokens k sps)"
  by (simp add: combine_tokens_eq)

lemma finite_final_candidates: "finite (final_candidates raw ys l c s sps k)"
  by (simp add: final_candidates_def Let_def finite_combine_tokens finite_append_years
        add_suffixes_eq_append_years)

lemma join_nonempty: "p \<noteq> [] \<Longrightarrow> [] \<notin> set p \<Longrightarrow> join sep p \<noteq> []"
  by (induction sep p rule: join.induct) auto

lemma combine_tokens_nonempty: "[] \<notin> combine_tokens tokens k sps"
proof
  assume "[] \<in> combine_tokens tokens k sps"
  then obtain r p sep where r: "1 \<le> r"
      and p: "p \<in> set (permutations (filter (\<lambda>t. t \<noteq> []) tokens) r)"
      and e: "[] = join sep p"
    by (auto simp: combine_tokens_eq)
  from permutations_sound[OF p] r have "p \<noteq> []" "[] \<notin> set p" by auto
  from join_nonempty[OF this, of sep] e show False by simp
qed

lemma append_years_nonempty: "[] \<notin> W \<Longrightarrow> [] \<notin> append_years W ys"
  by (auto simp: append_years_eq)

lemma final_candidates_nonempty: "[] \<notin> final_candidates raw ys l c s sps k"
  by (simp add: final_candidates_def Let_def combine_tokens_nonempty append_years_nonempty
        add_suffixes_eq_append_years)

lemma set_generate_wordlist_subset:
  "set (generate_wordlist raw ys l c s sps k n) \<subseteq> final_candidates raw ys l c s sps k"
proof -
  have "set (sort_key word_key (sorted_list_of_set (final_candidates raw ys l c s sps k)))
          = final_candidates raw ys l c s sps k"
    by (simp add: finite_final_candidates)
  then show ?thesis
    by (auto simp: generate_wordlist_def Let_def dest: in_set_takeD)
qed

text \<open>
  C10. No string of the final output sequence of the pipeline is empty, whatever the
  configuration and the raw inputs: the Token Combiner drops empty tokens, joins at least
  one token, and appending years or suffixes only lengthens a string.
\<close>

theorem pipeline_output_nonempty:
  "[] \<notin> set (generate_wordlist raw ys l c s sps k n)"
  using set_generate_wordlist_subset[of raw ys l c s sps k n]
        final_candidates_nonempty[of raw ys l c s sps k] by blast

text \<open>
  C6 at the raw input of one space. The test for an empty input (line 82) comes before the
  trimming (line 83), so the input passes the test, is trimmed to the empty string, and
  the empty string is added to the base token set.
\<close>

theorem base_tokens_whitespace_only:
  "strip '' '' = [] \<and> base_tokens ['' ''] = {[]}"
  by (simp add: base_tokens_def base_step_def strip_def isspace_def re_split_keep_digits_def)

lemma map_nat_upto: "map nat [1..n] = [1 ..< nat (n + 1)]"
proof (rule nth_equalityI)
  show "length (map nat [1..n]) = length [1 ..< nat (n + 1)]" by simp
next
  fix i assume "i < length (map nat [1..n])"
  then have i: "1 + int i \<le> n" by simp
  then show "map nat [1..n] ! i = [1 ..< nat (n + 1)] ! i" by (simp add: nth_upto)
qed

lemma combine_loop_eq:
  assumes "\<forall>r \<in> set rs. 0 \<le> r"
  shows "combine_loop tokens sps rs S =
           Inr (fold (\<lambda>r combos.
                        fold (\<lambda>perm combos.
                                fold (\<lambda>sep combos. insert (join sep perm) combos) sps combos)
                             (permutations tokens r) combos)
                     (map nat rs) S)"
  using assms
proof (induction rs arbitrary: S)
  case Nil
  then show ?case by simp
next
  case (Cons r rs)
  then have "\<not> r < 0" by simp
  with Cons show ?case by (simp add: itertools_permutations_def)
qed

lemma combine_tokens_result_eq:
  "combine_tokens_result tokens k sps = Inr (combine_tokens tokens k sps)"
proof -
  have "\<forall>r \<in> set [1 .. min (int (length (filter (\<lambda>t. t \<noteq> []) tokens))) k]. 0 \<le> r"
    by simp
  from combine_loop_eq[OF this] show ?thesis
    by (simp only: combine_tokens_result_def combine_tokens_def Let_def map_nat_upto)
qed

lemma generate_wordlist_result_eq:
  "generate_wordlist_result raw ys l c s sps k n = Inr (generate_wordlist raw ys l c s sps k n)"
  by (simp add: generate_wordlist_result_def generate_wordlist_def final_candidates_def
        combine_tokens_result_eq Let_def)

lemma combine_tokens_below_one: "k < 1 \<Longrightarrow> combine_tokens tokens k sps = {}"
  by (simp add: combine_tokens_def Let_def)

lemma append_years_empty: "append_years {} ys = {}"
  by (simp add: append_years_def)

lemma generate_wordlist_below_one:
  "k < 1 \<Longrightarrow> generate_wordlist raw ys l c s sps k n = []"
  by (simp add: generate_wordlist_def final_candidates_def Let_def combine_tokens_below_one
        append_years_empty add_suffixes_eq_append_years)

lemma generate_wordlist_max_words:
  "generate_wordlist raw ys l c s sps k n = generate_wordlist raw ys l c s sps k (max 0 n)"
  by (auto simp: generate_wordlist_def Let_def max_def)

text \<open>
  With a bound on the tokens per combination below 1 the pipeline does not behave as with
  the bound 1: it returns no word at all, where the bound 1 gives the four words
  \<open>1\<close>, \<open>a\<close>, \<open>b\<close> and \<open>a1\<close> for the raw inputs \<open>b\<close> and \<open>a1\<close>.
\<close>

theorem pipeline_clamp_counterexample:
  "generate_wordlist_result [''b'', ''a1''] [] False False False [''''] 0 0
     \<noteq> generate_wordlist_result [''b'', ''a1''] [] False False False [''''] (max 1 0) (max 0 0)"
proof -
  have e: "generate_wordlist [''b'', ''a1''] [] False False False [''''] 1 0
             = [''1'', ''a'', ''b'', ''a1'']"
    by code_simp
  have z: "generate_wordlist [''b'', ''a1''] [] False False False [''''] 0 0 = []"
    by (rule generate_wordlist_below_one) simp
  show ?thesis
    by (simp add: generate_wordlist_result_eq e z)
qed

text \<open>
  C7, as the code has it. The pipeline raises for no configuration, whatever the two
  bounds. It reads a bound on the words below 0 as it reads 0, so the output is that of
  the clamped bound. It does not clamp the bound on the tokens per combination: below 1
  it returns the empty sequence. The clamping of both bounds is in the call of the
  pipeline in \<open>main\<close>, whose output is that of the pipeline for the clamped configuration.
\<close>

theorem pipeline_bounds:
  "generate_wordlist_result raw ys l c s sps k n
     = Inr (generate_wordlist raw ys l c s sps k n) \<and>
   generate_wordlist raw ys l c s sps k n = generate_wordlist raw ys l c s sps k (max 0 n) \<and>
   (k < 1 \<longrightarrow> generate_wordlist raw ys l c s sps k n = []) \<and>
   main_generate a =
     Inr (generate_wordlist (args_inputs a) (args_years a) (args_leet a) (args_case a)
            (args_suffixes a) (args_seps a)
            (max 1 (args_max_combo a)) (max 0 (args_max_words a)))"
  using generate_wordlist_max_words[of raw ys l c s sps k n]
        generate_wordlist_below_one[of k raw ys l c s sps n]
  by (simp add: generate_wordlist_result_eq main_generate_def)

theorem pipeline_bounds_witness:
  "(0::int) < 1 \<and>
   generate_wordlist [''b'', ''a1''] [] False False False [''''] 0 (- 5) = [] \<and>
   generate_wordlist_result [''b'', ''a1''] [] False False False [''''] 0 (- 5) = Inr [] \<and>
   main_generate \<lparr>args_inputs = [''b'', ''a1''], args_years = [], args_leet = False,
                  args_case = False, args_suffixes = False, args_seps = [''''],
                  args_max_combo = 0, args_max_words = - 5\<rparr>
     = Inr [''1'', ''a'', ''b'', ''a1'']"
proof -
  have e: "generate_wordlist [''b'', ''a1''] [] False False False [''''] 1 0
             = [''1'', ''a'', ''b'', ''a1'']"
    by code_simp
  note p = pipeline_bounds[where raw = "[''b'', ''a1'']" and ys = "[]" and l = False and c = False
      and s = False and sps = "['''']" and k = 0 and n = "- 5"
      and a = "\<lparr>args_inputs = [''b'', ''a1''], args_years = [], args_leet = False,
                  args_case = False, args_suffixes = False, args_seps = [''''],
                  args_max_combo = 0, args_max_words = - 5\<rparr>"]
  have h: "(0::int) < 1" by simp
  from p h have r1: "generate_wordlist [''b'', ''a1''] [] False False False [''''] 0 (- 5) = []"
    by blast
  from p have "generate_wordlist_result [''b'', ''a1''] [] False False False [''''] 0 (- 5)
                 = Inr (generate_wordlist [''b'', ''a1''] [] False False False [''''] 0 (- 5))"
    by blast
  then have r2: "generate_wordlist_result [''b'', ''a1''] [] False False False [''''] 0 (- 5) = Inr []"
    by (simp only: r1)
  from p have "main_generate \<lparr>args_inputs = [''b'', ''a1''], args_years = [], args_leet = False,
                  args_case = False, args_suffixes = False, args_seps = [''''],
                  args_max_combo = 0, args_max_words = - 5\<rparr>
     = Inr (generate_wordlist [''b'', ''a1''] [] False False False [''''] (max 1 0) (max 0 (- 5)))"
    by simp
  then have r3: "main_generate \<lparr>args_inputs = [''b'', ''a1''], args_years = [], args_leet = False,
                  args_case = False, args_suffixes = False, args_seps = [''''],
                  args_max_combo = 0, args_max_words = - 5\<rparr>
     = Inr [''1'', ''a'', ''b'', ''a1'']"
    by (simp add: e)
  from h r1 r2 r3 show ?thesis by blast
qed

lemma inj_word_key: "inj word_key"
  by (simp add: inj_on_def word_key_def)

lemma sorted_take_drop_less:
  assumes s: "sorted (map f xs)" and d: "distinct (map f xs)"
      and x: "x \<in> set (take n xs)" and y: "y \<in> set xs - set (take n xs)"
  shows "f x < f y"
proof -
  have xs: "xs = take n xs @ drop n xs" by simp
  from y have y': "y \<in> set (drop n xs)"
    by (metis DiffD1 DiffD2 UnE append_take_drop_id set_append)
  from s have "sorted (map f (take n xs) @ map f (drop n xs))"
    by (metis append_take_drop_id map_append)
  with x y' have le: "f x \<le> f y"
    by (auto simp: sorted_append)
  from d have "distinct (map f (take n xs) @ map f (drop n xs))"
    by (metis append_take_drop_id map_append)
  with x y' have "f x \<noteq> f y"
    by (auto simp: image_iff) 
  with le show ?thesis by simp
qed

text \<open>
  The order in which \<open>sorted\<close> takes the elements of a set does not show in its result
  when the key is injective, as \<open>word_key\<close> is.
\<close>

lemma sort_key_independent:
  assumes "inj f" "distinct xs" "distinct zs" "set xs = set zs"
  shows "sort_key f xs = sort_key f zs"
proof -
  have i: "\<And>A. inj_on f A" using assms(1) by (rule inj_on_subset) simp
  have "map f (sort_key f xs) = map f (sort_key f zs)"
  proof (rule sorted_distinct_set_unique)
    show "sorted (map f (sort_key f xs))" "sorted (map f (sort_key f zs))" by simp_all
    show "distinct (map f (sort_key f xs))" using assms(2) by (simp add: distinct_map i)
    show "distinct (map f (sort_key f zs))" using assms(3) by (simp add: distinct_map i)
    show "set (map f (sort_key f xs)) = set (map f (sort_key f zs))" using assms(4) by simp
  qed
  with assms(1) show ?thesis by (simp add: inj_map_eq_map)
qed

text \<open>
  C2. With a bound \<open>N > 0\<close> on the words, the output has the length of the smaller of
  \<open>N\<close> and the number of final candidates; it is the first \<open>N\<close> entries of the untruncated
  output, which lists every final candidate once; it is sorted by length and then
  lexicographically, and every candidate left out comes strictly after every candidate
  in the output.
\<close>

theorem truncation_keeps_smallest:
  assumes "0 < N"
  shows "length (generate_wordlist raw ys l c s sps k N)
           = min (nat N) (card (final_candidates raw ys l c s sps k)) \<and>
         generate_wordlist raw ys l c s sps k N
           = take (nat N) (generate_wordlist raw ys l c s sps k 0) \<and>
         set (generate_wordlist raw ys l c s sps k 0) = final_candidates raw ys l c s sps k \<and>
         distinct (generate_wordlist raw ys l c s sps k N) \<and>
         set (generate_wordlist raw ys l c s sps k N) \<subseteq> final_candidates raw ys l c s sps k \<and>
         sorted (map word_key (generate_wordlist raw ys l c s sps k N)) \<and>
         (\<forall>x \<in> set (generate_wordlist raw ys l c s sps k N).
            \<forall>y \<in> final_candidates raw ys l c s sps k - set (generate_wordlist raw ys l c s sps k N).
              word_key x < word_key y)"
proof -
  define F where "F = final_candidates raw ys l c s sps k"
  define full where "full = sort_key word_key (sorted_list_of_set F)"
  have fin: "finite F" by (simp add: F_def finite_final_candidates)
  have i: "\<And>A. inj_on word_key A" using inj_word_key by (rule inj_on_subset) simp
  have out: "generate_wordlist raw ys l c s sps k N = take (nat N) full"
    using assms by (simp add: generate_wordlist_def Let_def F_def full_def)
  have full0: "generate_wordlist raw ys l c s sps k 0 = full"
    by (simp add: generate_wordlist_def Let_def F_def full_def)
  have setf: "set full = F" using fin by (simp add: full_def)
  have distf: "distinct full" by (simp add: full_def)
  have lenf: "length full = card F" using fin by (simp add: full_def)
  have sortf: "sorted (map word_key full)" by (simp add: full_def)
  have dkey: "distinct (map word_key full)" using distf by (simp add: distinct_map i)
  have "length (take (nat N) full) = min (nat N) (card F)" by (simp add: lenf)
  moreover have "distinct (take (nat N) full)" using distf by simp
  moreover have "set (take (nat N) full) \<subseteq> F" using setf by (auto dest: in_set_takeD)
  moreover have "sorted (map word_key (take (nat N) full))"
    using sortf by (simp add: take_map[symmetric] sorted_wrt_take)
  moreover have "\<forall>x \<in> set (take (nat N) full). \<forall>y \<in> F - set (take (nat N) full). word_key x < word_key y"
    using sorted_take_drop_less[OF sortf dkey] setf by blast
  ultimately show ?thesis
    unfolding out full0 setf F_def[symmetric] by blast
qed


theorem truncation_keeps_smallest_witness:
  "(0::int) < 2 \<and>
   generate_wordlist [''b'', ''a1''] [] False False False [''''] 1 2 = [''1'', ''a''] \<and>
   generate_wordlist [''b'', ''a1''] [] False False False [''''] 1 0 = [''1'', ''a'', ''b'', ''a1''] \<and>
   card (final_candidates [''b'', ''a1''] [] False False False [''''] 1) = 4 \<and>
   length (generate_wordlist [''b'', ''a1''] [] False False False [''''] 1 2)
     = min (nat 2) (card (final_candidates [''b'', ''a1''] [] False False False [''''] 1))"
proof -
  have h: "(0::int) < 2" by simp
  have e2: "generate_wordlist [''b'', ''a1''] [] False False False [''''] 1 2 = [''1'', ''a'']"
    by code_simp
  have e0: "generate_wordlist [''b'', ''a1''] [] False False False [''''] 1 0
              = [''1'', ''a'', ''b'', ''a1'']"
    by code_simp
  have c: "card (final_candidates [''b'', ''a1''] [] False False False [''''] 1) = 4"
    by code_simp
  from truncation_keeps_smallest[OF h, where raw = "[''b'', ''a1'']" and ys = "[]" and l = False
      and c = False and s = False and sps = "['''']" and k = 1]
  have "length (generate_wordlist [''b'', ''a1''] [] False False False [''''] 1 2)
     = min (nat 2) (card (final_candidates [''b'', ''a1''] [] False False False [''''] 1))"
    by blast
  with h e2 e0 c show ?thesis by blast
qed

end
